theory Spec2Isabelle
  imports Complex_Main "HOL-Library.Product_Lexorder"
begin

section \<open>Calendar values\<close>

text \<open>
  \<^verbatim>\<open>load_csv\<close> turns the integer column \<^verbatim>\<open>timestamp\<close> into the column \<^verbatim>\<open>date\<close> with
  \<^verbatim>\<open>pd.to_datetime(df.timestamp, unit='s')\<close>. A pandas Timestamp of that column is
  modelled by the number of seconds since 1970-01-01 00:00:00 it stands for, and its
  attributes \<^verbatim>\<open>year\<close>, \<^verbatim>\<open>month\<close>, \<^verbatim>\<open>day\<close>, \<^verbatim>\<open>hour\<close>, \<^verbatim>\<open>dayofweek\<close> are computed from that
  number in the proleptic Gregorian calendar (Monday is 0). A \<^verbatim>\<open>datetime.date\<close> is the
  triple (year, month, day); Python orders dates by year, then month, then day, which is
  the lexicographic order of the triple.
\<close>

type_synonym pd_timestamp = int
type_synonym py_date = "int \<times> int \<times> int"

definition civil_from_days :: "int \<Rightarrow> py_date" where
  "civil_from_days n =
     (let z = n + 719468;
          era = z div 146097;
          doe = z - era * 146097;
          yoe = (doe - doe div 1460 + doe div 36524 - doe div 146096) div 365;
          y = yoe + era * 400;
          doy = doe - (365 * yoe + yoe div 4 - yoe div 100);
          mp = (5 * doy + 2) div 153;
          d = doy - (153 * mp + 2) div 5 + 1;
          m = (if mp < 10 then mp + 3 else mp - 9)
      in (if m \<le> 2 then y + 1 else y, m, d))"

definition days_from_civil :: "py_date \<Rightarrow> int" where
  "days_from_civil ymd =
     (case ymd of (y0, m, d) \<Rightarrow>
        let y = (if m \<le> 2 then y0 - 1 else y0);
            era = y div 400;
            yoe = y - era * 400;
            mp = (if m > 2 then m - 3 else m + 9);
            doy = (153 * mp + 2) div 5 + d - 1;
            doe = yoe * 365 + yoe div 4 - yoe div 100 + doy
        in era * 146097 + doe - 719468)"

definition to_date :: "pd_timestamp \<Rightarrow> py_date" where
  \<comment> \<open>\<^verbatim>\<open>Timestamp.date()\<close>: the calendar date the instant falls on\<close>
  "to_date x = civil_from_days (x div 86400)"

definition year :: "pd_timestamp \<Rightarrow> int" where
  "year x = fst (to_date x)"

definition month :: "pd_timestamp \<Rightarrow> int" where
  "month x = fst (snd (to_date x))"

definition day :: "pd_timestamp \<Rightarrow> int" where
  "day x = snd (snd (to_date x))"

definition hour :: "pd_timestamp \<Rightarrow> int" where
  "hour x = (x mod 86400) div 3600"

definition dayofweek :: "pd_timestamp \<Rightarrow> int" where
  \<comment> \<open>1970-01-01 was a Thursday, weekday 3\<close>
  "dayofweek x = (x div 86400 + 3) mod 7"

definition Timestamp :: "py_date \<Rightarrow> pd_timestamp" where
  \<comment> \<open>\<^verbatim>\<open>Timestamp(date)\<close>: a date compared with a datetime64 column is first converted
      to the Timestamp of its midnight\<close>
  "Timestamp d = days_from_civil d * 86400"

definition leap :: "int \<Rightarrow> bool" where
  "leap y = (y mod 4 = 0 \<and> (y mod 100 \<noteq> 0 \<or> y mod 400 = 0))"

definition valid_date :: "py_date \<Rightarrow> bool" where
  \<comment> \<open>the triples \<^verbatim>\<open>datetime.date\<close> accepts (up to its bounds on the year)\<close>
  "valid_date ymd =
     (case ymd of (y, m, d) \<Rightarrow>
        1 \<le> m \<and> m \<le> 12 \<and> 1 \<le> d \<and>
        d \<le> (if m = 2 then (if leap y then 29 else 28)
              else if m = 4 \<or> m = 6 \<or> m = 9 \<or> m = 11 then 30 else 31))"

definition greg :: "int \<Rightarrow> int" where
  \<comment> \<open>the days of the years before year \<open>y\<close>, counted from year 0; used in the proofs only\<close>
  "greg y = 365 * y + y div 4 - y div 100 + y div 400"


section \<open>The event table\<close>

text \<open>
  One row of \<^verbatim>\<open>installers\<close> after \<^verbatim>\<open>load_csv\<close>: the four columns of the log and the
  added column \<^verbatim>\<open>date\<close>. Reading the file is outside the model: \<^verbatim>\<open>load_csv\<close> takes the
  parsed rows.
\<close>

record csv_row =
  timestamp :: int
  event :: string
  platform :: string
  arch :: string

record row = csv_row +
  date :: pd_timestamp

definition load_csv :: "csv_row list \<Rightarrow> row list" where
  "load_csv df = map (\<lambda>r. csv_row.extend r (row.fields (timestamp r))) df"


section \<open>pandas operations used by the application\<close>

text \<open>
  \<^verbatim>\<open>frame.groupby(keys).size()\<close>: one entry per key that occurs, in ascending key order,
  with the number of rows that have the key. The index of the result is the list of
  first components, its values the list of second components.
\<close>

definition groupby_size :: "('a \<Rightarrow> 'k::linorder) \<Rightarrow> 'a list \<Rightarrow> ('k \<times> nat) list" where
  "groupby_size key xs =
     map (\<lambda>k. (k, length (filter (\<lambda>x. key x = k) xs))) (sort (remdups (map key xs)))"

text \<open>\<^verbatim>\<open>Series.max()\<close> and \<^verbatim>\<open>Series.min()\<close>; \<open>None\<close> is the NaN (or NaT) of an empty series.\<close>

fun series_max :: "'a::linorder list \<Rightarrow> 'a option" where
  "series_max [] = None"
| "series_max (x # xs) = Some (fold max xs x)"

fun series_min :: "'a::linorder list \<Rightarrow> 'a option" where
  "series_min [] = None"
| "series_min (x # xs) = Some (fold min xs x)"

text \<open>
  A float of a column. Finite values are kept as exact rationals (the rounding of a
  double is not modelled); the two special values a division can produce are kept apart.
\<close>

datatype float64 = Fin rat | Inf | NaN

definition true_divide :: "nat \<Rightarrow> nat option \<Rightarrow> float64" where
  \<comment> \<open>\<^verbatim>\<open>float(c) / m\<close> where \<open>m\<close> is the result of \<^verbatim>\<open>Series.max()\<close>\<close>
  "true_divide c m =
     (case m of
        None \<Rightarrow> NaN
      | Some d \<Rightarrow> if d = 0 then (if c = 0 then NaN else Inf) else Fin (of_nat c / of_nat d))"


section \<open>The form and the application state\<close>

datatype resolution = daily | monthly | yearly

record InstallersModel =
  installer :: string
  resolution :: resolution
  platform :: string
  arch :: string
  start :: py_date
  end_date :: py_date

text \<open>
  The defaults of the form, computed from the table when the class is defined.
  \<^verbatim>\<open>installers.date.min().date()\<close> has no value on an empty table.
\<close>

definition InstallersModel_defaults :: "row list \<Rightarrow> InstallersModel option" where
  "InstallersModel_defaults installers =
     (case (series_min (map date installers), series_max (map date installers)) of
        (Some lo, Some hi) \<Rightarrow>
          Some \<lparr>installer = ''All'', resolution = monthly, platform = ''All'', arch = ''All'',
                start = to_date lo, end_date = to_date hi\<rparr>
      | _ \<Rightarrow> None)"

datatype cell = DateV py_date | IntV nat | FloatV float64 | StrV string

record ColumnDataSource =
  data :: "string \<rightharpoonup> cell list"
  dirty :: bool

record DownloadsApp =
  modelform :: InstallersModel
  downloads_source :: ColumnDataSource
  punchcard_source :: ColumnDataSource


section \<open>update_data\<close>

text \<open>
  The local variables of \<^verbatim>\<open>update_data\<close>, each as a function of the table and the form, in
  the order of the source. A boolean mask keeps the rows in their order.
\<close>

definition selected :: "row list \<Rightarrow> InstallersModel \<Rightarrow> row list" where
  "selected installers form =
     (let sel = installers;
          sel = filter (\<lambda>r. date r \<ge> Timestamp (start form)) sel;
          sel = filter (\<lambda>r. date r \<le> Timestamp (end_date form)) sel;
          sel = (if installer form \<noteq> ''All''
                 then filter (\<lambda>r. event r = installer form) sel else sel);
          sel = (if InstallersModel.platform form \<noteq> ''All''
                 then filter (\<lambda>r. csv_row.platform r = InstallersModel.platform form) sel else sel);
          sel = (if InstallersModel.arch form \<noteq> ''All''
                 then filter (\<lambda>r. csv_row.arch r = InstallersModel.arch form) sel else sel)
      in sel)"

text \<open>The four tests of the rows, each with its guard.\<close>

definition date_mask :: "InstallersModel \<Rightarrow> row \<Rightarrow> bool" where
  "date_mask form r = (date r \<ge> Timestamp (start form) \<and> date r \<le> Timestamp (end_date form))"

definition installer_mask :: "InstallersModel \<Rightarrow> row \<Rightarrow> bool" where
  "installer_mask form r = (installer form \<noteq> ''All'' \<longrightarrow> event r = installer form)"

definition platform_mask :: "InstallersModel \<Rightarrow> row \<Rightarrow> bool" where
  "platform_mask form r =
     (InstallersModel.platform form \<noteq> ''All'' \<longrightarrow> csv_row.platform r = InstallersModel.platform form)"

definition arch_mask :: "InstallersModel \<Rightarrow> row \<Rightarrow> bool" where
  "arch_mask form r =
     (InstallersModel.arch form \<noteq> ''All'' \<longrightarrow> csv_row.arch r = InstallersModel.arch form)"

fun fn :: "resolution \<Rightarrow> pd_timestamp \<Rightarrow> py_date" where
  "fn daily x = (year x, month x, day x)"
| "fn monthly x = (year x, month x, 1)"
| "fn yearly x = (year x, 1, 1)"

definition downloads :: "row list \<Rightarrow> InstallersModel \<Rightarrow> (py_date \<times> nat) list" where
  "downloads installers form =
     groupby_size (\<lambda>r. fn (resolution form) (date r)) (selected installers form)"

definition counts :: "row list \<Rightarrow> InstallersModel \<Rightarrow> ((int \<times> int) \<times> nat) list" where
  "counts installers form =
     groupby_size (\<lambda>r. (hour (date r), dayofweek (date r))) (selected installers form)"

definition percentages :: "row list \<Rightarrow> InstallersModel \<Rightarrow> float64 list" where
  "percentages installers form =
     (let values = map snd (counts installers form)
      in map (\<lambda>c. true_divide c (series_max values)) values)"

definition update_data :: "row list \<Rightarrow> DownloadsApp \<Rightarrow> DownloadsApp" where
  "update_data installers self =
     (let form = modelform self;
          ds = downloads_source self;
          ps = punchcard_source self
      in self
         \<lparr>downloads_source := ds
            \<lparr>data := (data ds)
               (''dates'' \<mapsto> map (\<lambda>p. DateV (fst p)) (downloads installers form),
                ''downloads'' \<mapsto> map (\<lambda>p. IntV (snd p)) (downloads installers form)),
             dirty := True\<rparr>,
          punchcard_source := ps
            \<lparr>data := (data ps)
               (''counts'' \<mapsto> map (\<lambda>p. IntV (snd p)) (counts installers form),
                ''percentages'' \<mapsto> map FloatV (percentages installers form)),
             dirty := True\<rparr>\<rparr>)"


section \<open>create\<close>

function str :: "nat \<Rightarrow> string" where
  "str n = (if n < 10 then [char_of (48 + n)]
            else str (n div 10) @ [char_of (48 + n mod 10)])"
  by pat_completeness auto
termination
  by (relation "measure id") auto

declare str.simps [simp del]

definition hours_labels :: "cell list" where
  \<comment> \<open>\<^verbatim>\<open>sum([ [str(hour)]*7 for hour in xrange(0, 24) ], [])\<close>\<close>
  "hours_labels = concat (map (\<lambda>hour. replicate 7 (StrV (str hour))) [0..<24])"

definition days_labels :: "cell list" where
  "days_labels =
     concat (replicate 24
       (map StrV [''Monday'', ''Tuesday'', ''Wednesday'', ''Thursday'', ''Friday'',
                  ''Saturday'', ''Sunday'']))"

text \<open>
  \<^verbatim>\<open>create\<close> up to the call of \<^verbatim>\<open>update_data\<close>; the plots built afterwards read the two
  sources and hold no column of their own, they are not part of the model.
\<close>

definition create :: "row list \<Rightarrow> DownloadsApp option" where
  "create installers =
     (case InstallersModel_defaults installers of
        None \<Rightarrow> None
      | Some form \<Rightarrow>
          Some (update_data installers
            \<lparr>modelform = form,
             downloads_source =
               \<lparr>data = [''dates'' \<mapsto> [], ''downloads'' \<mapsto> []], dirty = False\<rparr>,
             punchcard_source =
               \<lparr>data = [''counts'' \<mapsto> [], ''percentages'' \<mapsto> [],
                        ''hours'' \<mapsto> hours_labels, ''days'' \<mapsto> days_labels],
                dirty = False\<rparr>\<rparr>))"


section \<open>A small table\<close>

text \<open>
  Three rows: 2024-01-01 10:00 (Monday), 2024-01-01 12:00 and 2024-02-15 09:00
  (Thursday), and a form whose range covers them.
\<close>

definition example_installers :: "row list" where
  "example_installers =
     [\<lparr>timestamp = 1704103200, event = ''A'', platform = ''win'', arch = ''x64'',
       date = 1704103200\<rparr>,
      \<lparr>timestamp = 1704110400, event = ''B'', platform = ''osx'', arch = ''x64'',
       date = 1704110400\<rparr>,
      \<lparr>timestamp = 1707987600, event = ''A'', platform = ''win'', arch = ''x86'',
       date = 1707987600\<rparr>]"

definition example_form :: InstallersModel where
  "example_form =
     \<lparr>installer = ''All'', resolution = monthly, platform = ''All'', arch = ''All'',
      start = (2024, 1, 1), end_date = (2024, 3, 1)\<rparr>"


definition example_default_form :: InstallersModel where
  \<comment> \<open>the defaults of the form for \<open>example_installers\<close>\<close>
  "example_default_form =
     \<lparr>installer = ''All'', resolution = monthly, platform = ''All'', arch = ''All'',
      start = (2024, 1, 1), end_date = (2024, 2, 15)\<rparr>"

definition example_inverted_form :: InstallersModel where
  "example_inverted_form =
     \<lparr>installer = ''All'', resolution = monthly, platform = ''All'', arch = ''All'',
      start = (2024, 3, 1), end_date = (2024, 1, 1)\<rparr>"


section \<open>Recomputation on a change of the form\<close>

text \<open>
  A field of the form changes and \<^verbatim>\<open>input_change\<close> calls \<^verbatim>\<open>update_data\<close>; the plot titles
  it sets afterwards are not part of the model. A session is a list of such changes.
\<close>

fun recomputations :: "row list \<Rightarrow> InstallersModel list \<Rightarrow> DownloadsApp \<Rightarrow> DownloadsApp" where
  "recomputations installers [] self = self"
| "recomputations installers (form # forms) self =
     recomputations installers forms (update_data installers (self\<lparr>modelform := form\<rparr>))"


section \<open>Properties of groupby_size\<close>

lemma groupby_size_index: "map fst (groupby_size key xs) = sort (remdups (map key xs))"
  by (simp add: groupby_size_def comp_def)

lemma groupby_size_keys: "fst ` set (groupby_size key xs) = key ` set xs"
proof -
  have "set (map fst (groupby_size key xs)) = key ` set xs"
    by (simp only: groupby_size_index set_sort set_remdups set_map)
  then show ?thesis by simp
qed

lemma groupby_size_strict: "sorted_wrt (<) (map fst (groupby_size key xs))"
  by (simp only: groupby_size_index strict_sorted_iff) simp

lemma groupby_size_entry:
  assumes "(k, c) \<in> set (groupby_size key xs)"
  shows "c = length (filter (\<lambda>x. key x = k) xs)" and "k \<in> key ` set xs" and "1 \<le> c"
proof -
  from assms show c: "c = length (filter (\<lambda>x. key x = k) xs)"
    by (auto simp: groupby_size_def)
  from assms show k: "k \<in> key ` set xs"
    by (auto simp: groupby_size_def)
  then obtain x where "x \<in> set xs" "key x = k" by auto
  then have "filter (\<lambda>x. key x = k) xs \<noteq> []"
    by (auto simp: filter_empty_conv)
  with c show "1 \<le> c" by (cases "filter (\<lambda>x. key x = k) xs") auto
qed

lemma sum_indicator_distinct:
  "distinct ks \<Longrightarrow> (\<Sum>j\<leftarrow>ks. if k = j then 1 else 0) = (if k \<in> set ks then 1 else (0::nat))"
  by (induction ks) auto

lemma sum_group_sizes:
  "distinct ks \<Longrightarrow> key ` set xs \<subseteq> set ks \<Longrightarrow>
     (\<Sum>k\<leftarrow>ks. length (filter (\<lambda>x. key x = k) xs)) = length xs"
proof (induction xs)
  case Nil
  then show ?case by simp
next
  case (Cons x xs)
  have "(\<Sum>k\<leftarrow>ks. length (filter (\<lambda>y. key y = k) (x # xs)))
        = (\<Sum>k\<leftarrow>ks. (if key x = k then 1 else 0) + length (filter (\<lambda>y. key y = k) xs))"
    by (rule arg_cong [where f = sum_list], rule map_cong) auto
  also have "\<dots> = (\<Sum>k\<leftarrow>ks. if key x = k then 1 else 0)
                  + (\<Sum>k\<leftarrow>ks. length (filter (\<lambda>y. key y = k) xs))"
    by (simp add: sum_list_addf)
  also have "\<dots> = 1 + length xs"
    using Cons by (simp add: sum_indicator_distinct)
  finally show ?case by simp
qed

lemma groupby_size_total: "sum_list (map snd (groupby_size key xs)) = length xs"
proof -
  have "sum_list (map snd (groupby_size key xs))
        = (\<Sum>k\<leftarrow>sort (remdups (map key xs)). length (filter (\<lambda>x. key x = k) xs))"
    by (simp add: groupby_size_def comp_def)
  also have "\<dots> = length xs"
    by (rule sum_group_sizes) auto
  finally show ?thesis .
qed


section \<open>The time series\<close>

text \<open>
  C6. The time series \<^verbatim>\<open>downloads\<close> has its bucket dates in strictly ascending order
  (so each bucket occurs once), its buckets are exactly the buckets of the selected
  rows, and the count of a bucket is the number of selected rows that fall into it,
  which is at least 1.
\<close>

theorem timeseries_sparse_ascending:
  "sorted_wrt (<) (map fst (downloads installers form)) \<and>
   fst ` set (downloads installers form)
     = (\<lambda>r. fn (resolution form) (date r)) ` set (selected installers form) \<and>
   (\<forall>p \<in> set (downloads installers form).
      snd p = length (filter (\<lambda>r. fn (resolution form) (date r) = fst p)
                       (selected installers form)) \<and>
      1 \<le> snd p)"
proof (intro conjI ballI)
  show "sorted_wrt (<) (map fst (downloads installers form))"
    unfolding downloads_def by (rule groupby_size_strict)
  show "fst ` set (downloads installers form)
          = (\<lambda>r. fn (resolution form) (date r)) ` set (selected installers form)"
    unfolding downloads_def by (rule groupby_size_keys)
next
  fix p assume "p \<in> set (downloads installers form)"
  then have p: "(fst p, snd p) \<in> set (groupby_size (\<lambda>r. fn (resolution form) (date r))
                                        (selected installers form))"
    by (simp add: downloads_def)
  from groupby_size_entry(1) [OF p]
  show "snd p = length (filter (\<lambda>r. fn (resolution form) (date r) = fst p)
                          (selected installers form))" .
  from groupby_size_entry(3) [OF p] show "1 \<le> snd p" .
qed

theorem timeseries_sparse_ascending_witness:
  "downloads example_installers example_form = [((2024, 1, 1), 2), ((2024, 2, 1), 1)] \<and>
   (2::nat) = length (filter (\<lambda>r. fn (resolution example_form) (date r) = (2024, 1, 1))
                       (selected example_installers example_form))"
proof -
  have d: "downloads example_installers example_form
             = [((2024, 1, 1), 2), ((2024, 2, 1), 1)]"
    by code_simp
  then have "((2024, 1, 1), 2) \<in> set (downloads example_installers example_form)"
    by simp
  with timeseries_sparse_ascending [of example_installers example_form]
  have "snd ((2024::int, 1::int, 1::int), 2::nat)
          = length (filter (\<lambda>r. fn (resolution example_form) (date r)
                                  = fst ((2024::int, 1::int, 1::int), 2::nat))
                      (selected example_installers example_form))"
    by blast
  with d show ?thesis by simp
qed


section \<open>Conservation of the number of rows\<close>

text \<open>
  C9. The counts of the time series add up to the number of selected rows, and so do
  the counts of the punchcard cells that \<^verbatim>\<open>update_data\<close> emits.
\<close>

theorem counts_conserved:
  "sum_list (map snd (downloads installers form)) = length (selected installers form) \<and>
   sum_list (map snd (counts installers form)) = length (selected installers form)"
  unfolding downloads_def counts_def by (simp only: groupby_size_total)


section \<open>The punchcard percentages\<close>

lemma series_max_Some:
  assumes "series_max xs = Some m"
  shows "m \<in> set xs" and "\<forall>x \<in> set xs. x \<le> m"
proof -
  from assms obtain y ys where xs: "xs = y # ys" by (cases xs) auto
  from assms have "m = fold max ys y" by (simp add: xs)
  then have m: "m = Max (set (y # ys))" by (simp only: Max.set_eq_fold)
  show "m \<in> set xs" unfolding m xs by (rule Max_in) auto
  show "\<forall>x \<in> set xs. x \<le> m" unfolding m xs by (auto intro: Max_ge)
qed

lemma series_max_None: "series_max xs = None \<longleftrightarrow> xs = []"
  by (cases xs) auto

lemma counts_positive: "c \<in> set (map snd (counts installers form)) \<Longrightarrow> 1 \<le> c"
  unfolding counts_def using groupby_size_entry(3) by fastforce

text \<open>
  C7. With \<open>max_count\<close> the value of \<^verbatim>\<open>counts.max()\<close>, a maximum of the emitted counts:
  when it is positive, the percentage of each cell is its count divided by \<open>max_count\<close>
  and some cell has percentage 1; otherwise (which happens only when no cell is
  emitted) every percentage is 0; every percentage is a number between 0 and 1.
  Quotients are exact: the rounding of doubles is not part of the model.
\<close>

theorem punchcard_percentages:
  "length (percentages installers form) = length (counts installers form) \<and>
   (\<forall>m. series_max (map snd (counts installers form)) = Some m \<longrightarrow>
        m \<in> set (map snd (counts installers form)) \<and>
        (\<forall>c \<in> set (map snd (counts installers form)). c \<le> m)) \<and>
   (\<forall>m. series_max (map snd (counts installers form)) = Some m \<and> 0 < m \<longrightarrow>
        (\<forall>i < length (counts installers form).
           percentages installers form ! i
             = Fin (of_nat (snd (counts installers form ! i)) / of_nat m)) \<and>
        Fin 1 \<in> set (percentages installers form)) \<and>
   (\<not> (\<exists>m. series_max (map snd (counts installers form)) = Some m \<and> 0 < m) \<longrightarrow>
        (\<forall>p \<in> set (percentages installers form). p = Fin 0)) \<and>
   (\<forall>p \<in> set (percentages installers form). \<exists>q. p = Fin q \<and> 0 \<le> q \<and> q \<le> 1)"
proof -
  define cs where "cs = map snd (counts installers form)"
  define ps where "ps = percentages installers form"
  have ps: "ps = map (\<lambda>c. true_divide c (series_max cs)) cs"
    by (simp add: ps_def cs_def percentages_def Let_def)
  have pos: "\<forall>c \<in> set cs. 1 \<le> c"
    unfolding cs_def using counts_positive by blast
  have len: "length ps = length (counts installers form)"
    by (simp add: ps cs_def)
  have mx: "\<forall>m. series_max cs = Some m \<longrightarrow> m \<in> set cs \<and> (\<forall>c \<in> set cs. c \<le> m)"
    using series_max_Some by blast
  have quot: "\<forall>m. series_max cs = Some m \<and> 0 < m \<longrightarrow>
        (\<forall>i < length (counts installers form).
           ps ! i = Fin (of_nat (snd (counts installers form ! i)) / of_nat m)) \<and>
        Fin 1 \<in> set ps"
  proof (intro allI impI)
    fix m assume a: "series_max cs = Some m \<and> 0 < m"
    then have m: "series_max cs = Some m" and "0 < m" by auto
    then have eq: "ps = map (\<lambda>c. Fin (of_nat c / of_nat m)) cs"
      by (simp add: ps true_divide_def)
    have one: "Fin (of_nat m / of_nat m) \<in> set ps"
      unfolding eq using series_max_Some(1) [OF m] by auto
    have "(of_nat m :: rat) / of_nat m = 1" using \<open>0 < m\<close> by simp
    with one have "Fin 1 \<in> set ps" by simp
    moreover have "\<forall>i < length (counts installers form).
           ps ! i = Fin (of_nat (snd (counts installers form ! i)) / of_nat m)"
      by (simp add: eq cs_def)
    ultimately show "(\<forall>i < length (counts installers form).
           ps ! i = Fin (of_nat (snd (counts installers form ! i)) / of_nat m)) \<and>
        Fin 1 \<in> set ps" by simp
  qed
  have none: "\<not> (\<exists>m. series_max cs = Some m \<and> 0 < m) \<longrightarrow> (\<forall>p \<in> set ps. p = Fin 0)"
  proof
    assume n: "\<not> (\<exists>m. series_max cs = Some m \<and> 0 < m)"
    have "cs = []"
    proof (cases "series_max cs")
      case None
      then show ?thesis by (simp add: series_max_None)
    next
      case (Some m)
      with series_max_Some(1) [OF Some] pos have "0 < m" by fastforce
      with Some n show ?thesis by blast
    qed
    then show "\<forall>p \<in> set ps. p = Fin 0" by (simp add: ps)
  qed
  have bound: "\<forall>p \<in> set ps. \<exists>q. p = Fin q \<and> 0 \<le> q \<and> q \<le> 1"
  proof
    fix p assume "p \<in> set ps"
    then obtain c where c: "c \<in> set cs" and p: "p = true_divide c (series_max cs)"
      by (auto simp: ps)
    then obtain m where m: "series_max cs = Some m"
      by (cases "series_max cs") (auto simp: series_max_None)
    from series_max_Some [OF m] c pos have le: "c \<le> m" and mpos: "0 < m" by fastforce+
    have "p = Fin (of_nat c / of_nat m)" using p m mpos by (simp add: true_divide_def)
    moreover have "(0::rat) \<le> of_nat c / of_nat m" by simp
    moreover have "(of_nat c :: rat) / of_nat m \<le> 1" using le mpos by (simp add: divide_le_eq)
    ultimately show "\<exists>q. p = Fin q \<and> 0 \<le> q \<and> q \<le> 1" by blast
  qed
  from len mx quot none bound show ?thesis
    unfolding ps_def cs_def by blast
qed

theorem punchcard_percentages_witness:
  "series_max (map snd (counts example_installers example_form)) = Some 1 \<and>
   (0::nat) < 1 \<and>
   Fin 1 \<in> set (percentages example_installers example_form)"
proof -
  have m: "series_max (map snd (counts example_installers example_form)) = Some 1"
    by code_simp
  with punchcard_percentages [of example_installers example_form]
  have "Fin 1 \<in> set (percentages example_installers example_form)"
    by (metis zero_less_one)
  with m show ?thesis by simp
qed


section \<open>The bucket of a row\<close>

text \<open>
  C5. The bucket date of every selected row is given by the resolution rule: daily is
  (year, month, day) of its timestamp, monthly is (year, month, 1), yearly is
  (year, 1, 1); and the time series has no other bucket dates.
\<close>

theorem bucket_by_resolution:
  "(\<forall>r \<in> set (selected installers form).
      (case resolution form of
         daily \<Rightarrow> (year (date r), month (date r), day (date r))
       | monthly \<Rightarrow> (year (date r), month (date r), 1)
       | yearly \<Rightarrow> (year (date r), 1, 1)) \<in> fst ` set (downloads installers form)) \<and>
   (\<forall>b \<in> fst ` set (downloads installers form).
      \<exists>r \<in> set (selected installers form).
        b = (case resolution form of
               daily \<Rightarrow> (year (date r), month (date r), day (date r))
             | monthly \<Rightarrow> (year (date r), month (date r), 1)
             | yearly \<Rightarrow> (year (date r), 1, 1)))"
proof -
  have rule: "\<And>x. fn (resolution form) x =
      (case resolution form of
         daily \<Rightarrow> (year x, month x, day x)
       | monthly \<Rightarrow> (year x, month x, 1)
       | yearly \<Rightarrow> (year x, 1, 1))"
    by (cases "resolution form") simp_all
  have "fst ` set (downloads installers form)
          = (\<lambda>r. fn (resolution form) (date r)) ` set (selected installers form)"
    unfolding downloads_def by (rule groupby_size_keys)
  then show ?thesis unfolding rule by auto
qed

theorem bucket_by_resolution_witness:
  "example_installers ! 2 \<in> set (selected example_installers example_form) \<and>
   resolution example_form = monthly \<and>
   (year (date (example_installers ! 2)), month (date (example_installers ! 2)), 1::int)
     = (2024, 2, 1) \<and>
   (2024, 2, 1) \<in> fst ` set (downloads example_installers example_form)"
proof -
  have s: "example_installers ! 2 \<in> set (selected example_installers example_form)"
    by code_simp
  have m: "resolution example_form = monthly" by (simp add: example_form_def)
  have v: "(year (date (example_installers ! 2)), month (date (example_installers ! 2)), 1::int)
             = (2024, 2, 1)"
    by code_simp
  from bucket_by_resolution [of example_installers example_form] s
  have "(case resolution example_form of
         daily \<Rightarrow> (year (date (example_installers ! 2)), month (date (example_installers ! 2)),
                    day (date (example_installers ! 2)))
       | monthly \<Rightarrow> (year (date (example_installers ! 2)), month (date (example_installers ! 2)), 1)
       | yearly \<Rightarrow> (year (date (example_installers ! 2)), 1, 1))
       \<in> fst ` set (downloads example_installers example_form)"
    by blast
  with m v have "(2024, 2, 1) \<in> fst ` set (downloads example_installers example_form)"
    by simp
  with s m v show ?thesis by simp
qed


section \<open>The columns update_data writes\<close>

text \<open>
  The four columns written by \<^verbatim>\<open>update_data\<close> hold the index and the values of
  \<^verbatim>\<open>downloads\<close> and the values of \<^verbatim>\<open>counts\<close> and \<^verbatim>\<open>percentages\<close>; the form is left as it is.
\<close>

lemma update_data_columns:
  "data (downloads_source (update_data installers self)) ''dates''
     = Some (map (\<lambda>p. DateV (fst p)) (downloads installers (modelform self))) \<and>
   data (downloads_source (update_data installers self)) ''downloads''
     = Some (map (\<lambda>p. IntV (snd p)) (downloads installers (modelform self))) \<and>
   data (punchcard_source (update_data installers self)) ''counts''
     = Some (map (\<lambda>p. IntV (snd p)) (counts installers (modelform self))) \<and>
   data (punchcard_source (update_data installers self)) ''percentages''
     = Some (map FloatV (percentages installers (modelform self))) \<and>
   modelform (update_data installers self) = modelform self"
  by (simp add: update_data_def Let_def)


section \<open>The label columns of the punchcard\<close>

lemma nth_concat_blocks:
  "\<forall>x \<in> set xs. length (f x) = n \<Longrightarrow> i < length xs \<Longrightarrow> j < n \<Longrightarrow>
     concat (map f xs) ! (n * i + j) = f (xs ! i) ! j"
proof (induction xs arbitrary: i)
  case Nil
  then show ?case by simp
next
  case (Cons x xs)
  show ?case
  proof (cases i)
    case 0
    with Cons.prems show ?thesis by (simp add: nth_append)
  next
    case (Suc i')
    with Cons.prems have "concat (map f xs) ! (n * i' + j) = f (xs ! i') ! j"
      by (intro Cons.IH) auto
    moreover have "n * i + j = n + (n * i' + j)" using Suc by simp
    ultimately show ?thesis using Cons.prems Suc by (simp add: nth_append)
  qed
qed

lemma length_hours_labels: "length hours_labels = 168"
  by (simp add: hours_labels_def length_concat comp_def sum_list_triv)

lemma length_days_labels: "length days_labels = 168"
  by (simp add: days_labels_def length_concat sum_list_replicate)

lemma hours_labels_nth: "h < 24 \<Longrightarrow> d < 7 \<Longrightarrow> hours_labels ! (7 * h + d) = StrV (str h)"
  unfolding hours_labels_def
  by (subst nth_concat_blocks [where n = 7]) auto

lemma days_labels_nth:
  "h < 24 \<Longrightarrow> d < 7 \<Longrightarrow>
     days_labels ! (7 * h + d)
       = StrV ([''Monday'', ''Tuesday'', ''Wednesday'', ''Thursday'', ''Friday'',
                ''Saturday'', ''Sunday''] ! d)"
proof -
  assume h: "h < 24" and d: "d < 7"
  let ?week = "map StrV [''Monday'', ''Tuesday'', ''Wednesday'', ''Thursday'', ''Friday'',
                ''Saturday'', ''Sunday'']"
  have "days_labels = concat (map (\<lambda>_. ?week) [0..<24])"
    by (simp add: days_labels_def map_replicate_trivial)
  then have "days_labels ! (7 * h + d) = ?week ! d"
    using nth_concat_blocks [where f = "\<lambda>_::nat. ?week" and n = 7 and xs = "[0..<24]" and i = h and j = d] h d
    by simp
  also have "\<dots> = StrV ([''Monday'', ''Tuesday'', ''Wednesday'', ''Thursday'', ''Friday'',
                ''Saturday'', ''Sunday''] ! d)"
    using d by (subst nth_map) auto
  finally show ?thesis .
qed

lemma update_data_frame:
  "k \<noteq> ''dates'' \<Longrightarrow> k \<noteq> ''downloads'' \<Longrightarrow>
     data (downloads_source (update_data installers self)) k = data (downloads_source self) k"
  "k \<noteq> ''counts'' \<Longrightarrow> k \<noteq> ''percentages'' \<Longrightarrow>
     data (punchcard_source (update_data installers self)) k = data (punchcard_source self) k"
  by (simp_all add: update_data_def Let_def)

lemma recomputations_labels:
  "data (punchcard_source (recomputations installers forms self)) ''hours''
     = data (punchcard_source self) ''hours'' \<and>
   data (punchcard_source (recomputations installers forms self)) ''days''
     = data (punchcard_source self) ''days''"
  by (induction forms arbitrary: self) (simp_all add: update_data_frame)

lemma create_labels:
  "create installers = Some app \<Longrightarrow>
     data (punchcard_source app) ''hours'' = Some hours_labels \<and>
     data (punchcard_source app) ''days'' = Some days_labels"
  by (auto simp: create_def update_data_frame split: option.splits)


text \<open>
  C10. \<^verbatim>\<open>update_data\<close> replaces the columns \<^verbatim>\<open>dates\<close> and \<^verbatim>\<open>downloads\<close> of the time-series
  source and \<^verbatim>\<open>counts\<close> and \<^verbatim>\<open>percentages\<close> of the punchcard source and leaves every other
  column as it was, \<^verbatim>\<open>hours\<close> and \<^verbatim>\<open>days\<close> among them. After \<^verbatim>\<open>create\<close> and any list of
  recomputations these two columns are the 168 labels set at creation, in hour-major
  order: entry \<open>7 * h + d\<close> carries hour \<open>h\<close> and weekday \<open>d\<close>.
\<close>

theorem labels_never_modified:
  "(\<forall>k. k \<noteq> ''dates'' \<and> k \<noteq> ''downloads'' \<longrightarrow>
        data (downloads_source (update_data installers self)) k
          = data (downloads_source self) k) \<and>
   (\<forall>k. k \<noteq> ''counts'' \<and> k \<noteq> ''percentages'' \<longrightarrow>
        data (punchcard_source (update_data installers self)) k
          = data (punchcard_source self) k) \<and>
   data (punchcard_source (update_data installers self)) ''hours''
     = data (punchcard_source self) ''hours'' \<and>
   data (punchcard_source (update_data installers self)) ''days''
     = data (punchcard_source self) ''days'' \<and>
   (\<forall>app. create installers = Some app \<longrightarrow>
        data (punchcard_source (recomputations installers forms app)) ''hours''
          = Some hours_labels \<and>
        data (punchcard_source (recomputations installers forms app)) ''days''
          = Some days_labels) \<and>
   length hours_labels = 168 \<and> length days_labels = 168 \<and>
   (\<forall>h < 24. \<forall>d < 7.
        hours_labels ! (7 * h + d) = StrV (str h) \<and>
        days_labels ! (7 * h + d)
          = StrV ([''Monday'', ''Tuesday'', ''Wednesday'', ''Thursday'', ''Friday'',
                   ''Saturday'', ''Sunday''] ! d))"
proof (intro conjI allI impI)
  fix app assume c: "create installers = Some app"
  show "data (punchcard_source (recomputations installers forms app)) ''hours''
          = Some hours_labels"
    using recomputations_labels [of installers forms app] create_labels [OF c] by simp
  show "data (punchcard_source (recomputations installers forms app)) ''days''
          = Some days_labels"
    using recomputations_labels [of installers forms app] create_labels [OF c] by simp
qed (simp_all add: update_data_frame length_hours_labels length_days_labels
       hours_labels_nth days_labels_nth)

theorem labels_never_modified_witness:
  "\<exists>app. create example_installers = Some app \<and>
     data (punchcard_source
            (recomputations example_installers [example_inverted_form, example_form] app))
       ''hours'' = Some hours_labels \<and>
     hours_labels ! (7 * 10 + 0) = StrV ''10''"
proof -
  have "InstallersModel_defaults example_installers = Some example_default_form"
    by code_simp
  then obtain app where c: "create example_installers = Some app"
    by (simp add: create_def)
  have s: "str 10 = ''10''" by code_simp
  note T = labels_never_modified
             [of example_installers app "[example_inverted_form, example_form]"]
  from T c have a: "data (punchcard_source
            (recomputations example_installers [example_inverted_form, example_form] app))
       ''hours'' = Some hours_labels"
    by blast
  from T have "\<forall>h < 24. \<forall>d < 7.
        hours_labels ! (7 * h + d) = StrV (str h) \<and>
        days_labels ! (7 * h + d)
          = StrV ([''Monday'', ''Tuesday'', ''Wednesday'', ''Thursday'', ''Friday'',
                   ''Saturday'', ''Sunday''] ! d)"
    by blast
  from this [rule_format, of 10 0] have "hours_labels ! (7 * 10 + 0) = StrV (str 10)"
    by simp
  with a c s show ?thesis by simp
qed


section \<open>The code on the example table\<close>

text \<open>
  C1, which asks for 168 punchcard cells, one per (hour, weekday) pair, with count 0
  where no row matches. \<^verbatim>\<open>update_data\<close> emits a cell only for the pairs that occur among
  the selected rows: on the example table three cells, written next to the 168 labels of
  the columns \<^verbatim>\<open>hours\<close> and \<^verbatim>\<open>days\<close>.
\<close>

theorem punchcard_cells_emitted:
  "counts example_installers example_form = [((9, 3), 1), ((10, 0), 1), ((12, 0), 1)] \<and>
   percentages example_installers example_form = [Fin 1, Fin 1, Fin 1] \<and>
   length (counts example_installers example_form) \<noteq> 168 \<and>
   length hours_labels = 168"
proof -
  have "counts example_installers example_form = [((9, 3), 1), ((10, 0), 1), ((12, 0), 1)]"
    by code_simp
  moreover have "percentages example_installers example_form = [Fin 1, Fin 1, Fin 1]"
    by code_simp
  ultimately show ?thesis by (simp add: length_hours_labels)
qed

text \<open>
  C2, which asks for an empty time series and 168 cells of count 0 and percentage 0 when
  nothing is selected. On an inverted date range nothing is selected and the time series
  is empty, but no punchcard cell is emitted, and \<^verbatim>\<open>counts.max()\<close> has no value.
\<close>

theorem empty_selection_emits_nothing:
  "selected example_installers example_inverted_form = [] \<and>
   downloads example_installers example_inverted_form = [] \<and>
   counts example_installers example_inverted_form = [] \<and>
   percentages example_installers example_inverted_form = [] \<and>
   series_max (map snd (counts example_installers example_inverted_form)) = None"
  by code_simp

text \<open>
  C3, which asks that a row is kept exactly when its calendar date lies between \<^verbatim>\<open>start\<close>
  and \<^verbatim>\<open>end\<close>. With the defaults of the form for the example table, the row of
  2024-02-15 09:00 has its date within the range and is not selected: the end date is
  compared as the Timestamp of its midnight.
\<close>

theorem end_day_rows_dropped:
  "InstallersModel_defaults example_installers = Some example_default_form \<and>
   start example_default_form \<le> to_date (date (example_installers ! 2)) \<and>
   to_date (date (example_installers ! 2)) \<le> end_date example_default_form \<and>
   example_installers ! 2 \<notin> set (selected example_installers example_default_form) \<and>
   downloads example_installers example_default_form = [((2024, 1, 1), 2)]"
  by code_simp


section \<open>Dates and their midnights\<close>

lemma div_step:
  fixes y n :: int
  assumes "0 < n"
  shows "(y + 1) div n = (if n dvd (y + 1) then y div n + 1 else y div n)"
proof -
  define q where "q = y div n"
  define r where "r = y mod n"
  have y: "y = n * q + r" by (simp add: q_def r_def)
  have r: "0 \<le> r" "r < n" using assms by (simp_all add: r_def)
  show ?thesis
  proof (cases "r + 1 = n")
    case True
    then have e: "y + 1 = n * (q + 1) + 0" using y by (simp add: algebra_simps)
    have "(y + 1) div n = q + 1" by (rule int_div_pos_eq [OF e]) (use assms in auto)
    moreover have "n dvd (y + 1)" using e by simp
    ultimately show ?thesis by (simp add: q_def)
  next
    case False
    then have lt: "r + 1 < n" using r by simp
    have e: "y + 1 = n * q + (r + 1)" using y by simp
    have d: "(y + 1) div n = q" by (rule int_div_pos_eq [OF e]) (use r lt in auto)
    have m: "(y + 1) mod n = r + 1" by (rule int_mod_pos_eq [OF e]) (use r lt in auto)
    then have "\<not> n dvd (y + 1)" using r by (simp add: dvd_eq_mod_eq_0)
    with d show ?thesis by (simp add: q_def)
  qed
qed

lemma greg_step: "greg (y + 1) = greg y + 365 + (if leap (y + 1) then 1 else 0)"
proof -
  have a: "(400::int) dvd y + 1 \<Longrightarrow> 100 dvd y + 1"
    by (rule dvd_trans [of 100 400]) simp_all
  have b: "(100::int) dvd y + 1 \<Longrightarrow> 4 dvd y + 1"
    by (rule dvd_trans [of 4 100]) simp_all
  show ?thesis
    unfolding greg_def leap_def
    using a b by (auto simp: div_step mod_eq_0_iff_dvd)
qed

lemma greg_mono: "a \<le> b \<Longrightarrow> greg a \<le> greg b"
proof (induction b rule: int_ge_induct)
  case base
  show ?case by simp
next
  case (step i)
  then show ?case by (simp add: greg_step)
qed

lemma greg_next: "a < b \<Longrightarrow> greg a + 365 + (if leap (a + 1) then 1 else 0) \<le> greg b"
  using greg_mono [of "a + 1" b] by (simp add: greg_step)

lemma greg_era:
  "(y div 400) * 146097 + (y - y div 400 * 400) * 365 + (y - y div 400 * 400) div 4
     - (y - y div 400 * 400) div 100 = greg y"
proof -
  define e where "e = y div 400"
  define r where "r = y - e * 400"
  have y: "y = r + e * 400" by (simp add: r_def)
  have "y div 4 = (r + (e * 100) * 4) div 4" by (simp add: y)
  also have "\<dots> = r div 4 + e * 100" by (simp only: div_mult_self1)
  finally have d4: "y div 4 = r div 4 + e * 100" .
  have "y div 100 = (r + (e * 4) * 100) div 100" by (simp add: y)
  also have "\<dots> = r div 100 + e * 4" by (simp only: div_mult_self1)
  finally have d100: "y div 100 = r div 100 + e * 4" .
  have "greg y = 365 * y + y div 4 - y div 100 + e" by (simp add: greg_def e_def)
  also have "\<dots> = e * 146097 + r * 365 + r div 4 - r div 100"
    unfolding d4 d100 by (simp add: y)
  finally show ?thesis by (simp add: e_def r_def)
qed

lemma days_from_civil_greg:
  "days_from_civil (y0, m, d) =
     greg (if m \<le> 2 then y0 - 1 else y0)
     + (153 * (if m > 2 then m - 3 else m + 9) + 2) div 5 + d - 1 - 719468"
proof -
  define y where "y = (if m \<le> 2 then y0 - 1 else y0)"
  have "days_from_civil (y0, m, d) =
          ((y div 400) * 146097 + (y - y div 400 * 400) * 365 + (y - y div 400 * 400) div 4
             - (y - y div 400 * 400) div 100)
          + (153 * (if m > 2 then m - 3 else m + 9) + 2) div 5 + d - 1 - 719468"
    by (simp add: days_from_civil_def Let_def y_def)
  then show ?thesis unfolding greg_era y_def .
qed

lemma month_offset_gap:
  fixes p q :: int
  shows "p < q \<Longrightarrow> (153 * p + 2) div 5 + 30 \<le> (153 * q + 2) div 5"
proof -
  assume "p < q"
  then have "153 * p + 2 + 153 \<le> 153 * q + 2" by simp
  then have "(153 * p + 2 + 153) div 5 \<le> (153 * q + 2) div 5" by (rule zdiv_mono1) simp
  moreover have "(153 * p + 2) div 5 + 30 \<le> (153 * p + 2 + 153) div 5" by arith
  ultimately show ?thesis by linarith
qed

lemma days_from_civil_mono:
  assumes a: "valid_date a" and b: "valid_date b" and le: "a \<le> b"
  shows "days_from_civil a \<le> days_from_civil b"
proof -
  obtain y1 m1 d1 where A: "a = (y1, m1, d1)" by (cases a) auto
  obtain y2 m2 d2 where B: "b = (y2, m2, d2)" by (cases b) auto
  define Y1 where "Y1 = (if m1 \<le> 2 then y1 - 1 else y1)"
  define Y2 where "Y2 = (if m2 \<le> 2 then y2 - 1 else y2)"
  define p1 where "p1 = (if m1 > 2 then m1 - 3 else m1 + 9)"
  define p2 where "p2 = (if m2 > 2 then m2 - 3 else m2 + 9)"
  define D1 where "D1 = (153 * p1 + 2) div 5 + d1 - 1"
  define D2 where "D2 = (153 * p2 + 2) div 5 + d2 - 1"
  have e1: "days_from_civil a = greg Y1 + D1 - 719468"
    by (simp add: A days_from_civil_greg Y1_def p1_def D1_def)
  have e2: "days_from_civil b = greg Y2 + D2 - 719468"
    by (simp add: B days_from_civil_greg Y2_def p2_def D2_def)
  from a have v1: "1 \<le> m1" "m1 \<le> 12" "1 \<le> d1" "d1 \<le> 31"
    by (auto simp: A valid_date_def split: if_splits)
  from b have v2: "1 \<le> m2" "m2 \<le> 12" "1 \<le> d2" "d2 \<le> 31"
    by (auto simp: B valid_date_def split: if_splits)
  from a have feb: "m1 = 2 \<Longrightarrow> d1 \<le> 28 + (if leap y1 then 1 else 0)"
    by (auto simp: A valid_date_def leap_def split: if_splits)
  from le have ord: "y1 < y2 \<or> y1 = y2 \<and> (m1 < m2 \<or> m1 = m2 \<and> d1 \<le> d2)"
    by (auto simp: A B)
  have pr1: "0 \<le> p1" "p1 \<le> 11" using v1 by (auto simp: p1_def)
  have pr2: "0 \<le> p2" "p2 \<le> 11" using v2 by (auto simp: p2_def)
  have D2_nonneg: "0 \<le> D2"
  proof -
    have "0 \<le> (153 * p2 + 2) div 5" using pr2 by simp
    with v2 show ?thesis by (simp add: D2_def)
  qed
  have D1_bound: "D1 \<le> 364 + (if leap (Y1 + 1) then 1 else 0)"
  proof (cases "m1 = 2")
    case True
    then have "p1 = 11" "Y1 + 1 = y1" by (simp_all add: p1_def Y1_def)
    with feb [OF True] show ?thesis by (simp add: D1_def)
  next
    case False
    then have "p1 \<le> 10" using v1 by (auto simp: p1_def)
    then have "(153 * p1 + 2) div 5 \<le> 306" by arith
    with v1 show ?thesis by (simp add: D1_def)
  qed
  have Yle: "Y1 \<le> Y2" using ord v1 v2 by (auto simp: Y1_def Y2_def)
  show ?thesis
  proof (cases "Y1 < Y2")
    case True
    from greg_next [OF True] D1_bound D2_nonneg show ?thesis
      unfolding e1 e2 by linarith
  next
    case False
    with Yle have Y: "Y1 = Y2" by simp
    have pp: "p1 < p2 \<or> p1 = p2 \<and> d1 \<le> d2"
      using ord v1 v2 Y by (auto simp: Y1_def Y2_def p1_def p2_def split: if_splits)
    have "D1 \<le> D2"
    proof (cases "p1 < p2")
      case True
      from month_offset_gap [OF True] v1 v2 show ?thesis by (simp add: D1_def D2_def)
    next
      case False
      with pp show ?thesis by (simp add: D1_def D2_def)
    qed
    then show ?thesis unfolding e1 e2 Y by simp
  qed
qed

lemma Timestamp_mono: "valid_date a \<Longrightarrow> valid_date b \<Longrightarrow> a \<le> b \<Longrightarrow> Timestamp a \<le> Timestamp b"
  unfolding Timestamp_def using days_from_civil_mono [of a b] by simp


section \<open>The selection as a conjunction of tests\<close>

lemma fold_filter: "fold filter ps xs = filter (\<lambda>x. \<forall>p \<in> set ps. p x) xs"
proof (induction ps arbitrary: xs)
  case Nil
  show ?case by simp
next
  case (Cons p ps)
  have "fold filter (p # ps) xs = filter (\<lambda>x. \<forall>q \<in> set ps. q x) (filter p xs)"
    by (simp add: Cons.IH)
  also have "\<dots> = filter (\<lambda>x. \<forall>q \<in> set (p # ps). q x) xs"
    by (simp add: conj_commute)
  finally show ?case .
qed

lemma selected_filter:
  "selected installers form =
     filter (\<lambda>r. date_mask form r \<and> installer_mask form r \<and> platform_mask form r
                  \<and> arch_mask form r) installers"
  by (auto simp: selected_def Let_def date_mask_def installer_mask_def platform_mask_def
        arch_mask_def intro: filter_cong)

lemma date_mask_widen:
  assumes "valid_date s" "valid_date e" "valid_date (start form)" "valid_date (end_date form)"
    and "s \<le> start form" "end_date form \<le> e"
    and "date_mask form r"
  shows "date_mask (form\<lparr>start := s, end_date := e\<rparr>) r"
proof -
  have "Timestamp s \<le> Timestamp (start form)"
    using assms by (intro Timestamp_mono) auto
  moreover have "Timestamp (end_date form) \<le> Timestamp e"
    using assms by (intro Timestamp_mono) auto
  ultimately show ?thesis using assms(7) by (simp add: date_mask_def)
qed


text \<open>
  The selection of the code: the rows of the table that pass the four tests of
  \<^verbatim>\<open>update_data\<close>, in the order of the table. Applying these tests as successive filters
  in any order gives the same rows. Setting the installer, the platform or the
  architecture back to "All", or moving \<^verbatim>\<open>start\<close> earlier and \<^verbatim>\<open>end\<close> later, gives a
  selection of which the original one is a filter. The date test is the one of the
  code: the instant of the row lies between the midnights of \<^verbatim>\<open>start\<close> and \<^verbatim>\<open>end\<close>.
\<close>

lemma selected_by_masks:
  "selected installers form =
     filter (\<lambda>r. date_mask form r \<and> installer_mask form r \<and> platform_mask form r
                  \<and> arch_mask form r) installers \<and>
   (\<forall>ps. set ps = {date_mask form, installer_mask form, platform_mask form, arch_mask form}
      \<longrightarrow> fold filter ps installers = selected installers form) \<and>
   selected installers form
     = filter (installer_mask form) (selected installers (form\<lparr>installer := ''All''\<rparr>)) \<and>
   selected installers form
     = filter (platform_mask form) (selected installers (form\<lparr>platform := ''All''\<rparr>)) \<and>
   selected installers form
     = filter (arch_mask form) (selected installers (form\<lparr>arch := ''All''\<rparr>)) \<and>
   set (selected installers form) \<subseteq> set (selected installers (form\<lparr>installer := ''All''\<rparr>)) \<and>
   set (selected installers form) \<subseteq> set (selected installers (form\<lparr>platform := ''All''\<rparr>)) \<and>
   set (selected installers form) \<subseteq> set (selected installers (form\<lparr>arch := ''All''\<rparr>)) \<and>
   (\<forall>s e. valid_date s \<and> valid_date e \<and> valid_date (start form) \<and> valid_date (end_date form)
           \<and> s \<le> start form \<and> end_date form \<le> e \<longrightarrow>
      selected installers form
        = filter (date_mask form) (selected installers (form\<lparr>start := s, end_date := e\<rparr>)) \<and>
      set (selected installers form)
        \<subseteq> set (selected installers (form\<lparr>start := s, end_date := e\<rparr>)))"
proof -
  have order: "\<forall>ps. set ps = {date_mask form, installer_mask form, platform_mask form,
                              arch_mask form}
      \<longrightarrow> fold filter ps installers = selected installers form"
    by (auto simp: fold_filter selected_filter intro: filter_cong)
  have i: "selected installers form
     = filter (installer_mask form) (selected installers (form\<lparr>installer := ''All''\<rparr>))"
    by (auto simp: selected_filter date_mask_def installer_mask_def platform_mask_def
          arch_mask_def intro: filter_cong)
  have p: "selected installers form
     = filter (platform_mask form) (selected installers (form\<lparr>platform := ''All''\<rparr>))"
    by (auto simp: selected_filter date_mask_def installer_mask_def platform_mask_def
          arch_mask_def intro: filter_cong)
  have a: "selected installers form
     = filter (arch_mask form) (selected installers (form\<lparr>arch := ''All''\<rparr>))"
    by (auto simp: selected_filter date_mask_def installer_mask_def platform_mask_def
          arch_mask_def intro: filter_cong)
  have d: "selected installers form
        = filter (date_mask form) (selected installers (form\<lparr>start := s, end_date := e\<rparr>))"
    if "valid_date s \<and> valid_date e \<and> valid_date (start form) \<and> valid_date (end_date form)
           \<and> s \<le> start form \<and> end_date form \<le> e" for s e
  proof -
    have w: "date_mask form r \<Longrightarrow> date_mask (form\<lparr>start := s, end_date := e\<rparr>) r" for r
      using that by (intro date_mask_widen) auto
    have "filter (date_mask form) (selected installers (form\<lparr>start := s, end_date := e\<rparr>))
          = filter (\<lambda>r. date_mask form r \<and> installer_mask form r \<and> platform_mask form r
                  \<and> arch_mask form r) installers"
      unfolding selected_filter filter_filter
      using w by (intro filter_cong) (auto simp: installer_mask_def platform_mask_def arch_mask_def)
    then show ?thesis by (simp add: selected_filter)
  qed
  have sub: "xs = filter q ys \<Longrightarrow> set xs \<subseteq> set ys" for xs ys :: "row list" and q
    by auto
  from selected_filter order i p a d sub [OF i] sub [OF p] sub [OF a] sub [OF d]
  show ?thesis by blast
qed

text \<open>
  C4, which asks that the selected rows are exactly the rows with
  \<open>start \<le> date(timestamp) \<le> end\<close> that pass the installer, platform and architecture
  tests, and that going back to the full date range only adds rows. With the defaults of
  the form all three rows of the example table pass these tests, and the code selects
  two of them. With \<^verbatim>\<open>end\<close> on 2024-03-01 the code selects all three rows; going back to
  the full range, whose \<^verbatim>\<open>end\<close> is the date of the latest row, removes that row.
\<close>

theorem selection_misses_end_day:
  "InstallersModel_defaults example_installers = Some example_default_form \<and>
   filter (\<lambda>r. start example_default_form \<le> to_date (date r) \<and>
                to_date (date r) \<le> end_date example_default_form \<and>
                (installer example_default_form = ''All''
                   \<or> event r = installer example_default_form) \<and>
                (InstallersModel.platform example_default_form = ''All''
                   \<or> csv_row.platform r = InstallersModel.platform example_default_form) \<and>
                (InstallersModel.arch example_default_form = ''All''
                   \<or> csv_row.arch r = InstallersModel.arch example_default_form))
          example_installers
     = example_installers \<and>
   selected example_installers example_default_form = take 2 example_installers \<and>
   length example_installers = 3 \<and>
   example_form\<lparr>end_date := end_date example_default_form\<rparr> = example_default_form \<and>
   selected example_installers example_form = example_installers \<and>
   example_installers ! 2 \<in> set (selected example_installers example_form) \<and>
   example_installers ! 2
     \<notin> set (selected example_installers
              (example_form\<lparr>end_date := end_date example_default_form\<rparr>))"
  by code_simp

end
